theory Spec2Isabelle
  imports Complex_Main "HOL-Library.Multiset"
begin

section \<open>Snake on the console: the model of \<^verbatim>\<open>snake.js\<close>\<close>

text \<open>
  The game keeps its state in the local variables of \<^verbatim>\<open>playGame\<close>; the timer callback
  \<^verbatim>\<open>gameLoop\<close> and the keypress handler change them. The model passes that state
  explicitly. The host supplies what the program does not compute itself: the results of
  \<^verbatim>\<open>Math.random()\<close>, the player name typed at the prompt, the clock, and the functions
  \<^verbatim>\<open>JSON.parse\<close> and \<^verbatim>\<open>JSON.stringify\<close>.
\<close>

subsection \<open>Grid and geometry\<close>

record cell =
  row :: int
  col :: int

definition GRID_SIZE :: int where
  "GRID_SIZE = 10"

definition INITIAL_SNAKE :: "cell list" where
  "INITIAL_SNAKE = [\<lparr>row = 5, col = 5\<rparr>]"

datatype dir = Up | Down | Left | Right

fun DIRECTIONS :: "dir \<Rightarrow> cell" where
  "DIRECTIONS Up = \<lparr>row = -1, col = 0\<rparr>"
| "DIRECTIONS Down = \<lparr>row = 1, col = 0\<rparr>"
| "DIRECTIONS Left = \<lparr>row = 0, col = -1\<rparr>"
| "DIRECTIONS Right = \<lparr>row = 0, col = 1\<rparr>"

text \<open>
  \<^verbatim>\<open>snake.some(segment => segment.row === pos.row && segment.col === pos.col)\<close>
\<close>

definition some_at :: "cell \<Rightarrow> cell list \<Rightarrow> bool" where
  "some_at pos snake = list_ex (\<lambda>segment. row segment = row pos \<and> col segment = col pos) snake"

definition isCollision :: "cell \<Rightarrow> cell list \<Rightarrow> bool" where
  "isCollision pos snake =
     (row pos < 0 \<or> row pos \<ge> GRID_SIZE \<or> col pos < 0 \<or> col pos \<ge> GRID_SIZE \<or> some_at pos snake)"

text \<open>
  \<^verbatim>\<open>generateFood\<close> draws a row and a column with
  \<^verbatim>\<open>Math.floor(Math.random() * GRID_SIZE)\<close> until the cell drawn is on no segment of the
  snake. The host's random source is the sequence \<open>random\<close> of the numbers that successive
  calls of \<^verbatim>\<open>Math.random()\<close> return; \<open>k\<close> counts the calls made so far, and the function
  returns the food together with the new count. The loop has no bound, so the function is
  partial: \<open>None\<close> is the run that never leaves the loop. The product is taken in the reals
  (the rounding of the floating-point product is not modelled; no theorem below depends on
  which cell a given random number selects).
\<close>

partial_function (option) generateFood :: "(nat \<Rightarrow> real) \<Rightarrow> nat \<Rightarrow> cell list \<Rightarrow> (cell \<times> nat) option" where
  "generateFood random k snake =
     (let food = \<lparr>row = \<lfloor>random k * of_int GRID_SIZE\<rfloor>,
                  col = \<lfloor>random (k + 1) * of_int GRID_SIZE\<rfloor>\<rparr>
      in if some_at food snake then generateFood random (k + 2) snake
         else Some (food, k + 2))"

declare generateFood.simps [code]

text \<open>The cell that the loop draws in the iteration starting at call \<open>k\<close>.\<close>

definition drawn :: "(nat \<Rightarrow> real) \<Rightarrow> nat \<Rightarrow> cell" where
  "drawn random k = \<lparr>row = \<lfloor>random k * of_int GRID_SIZE\<rfloor>,
                      col = \<lfloor>random (k + 1) * of_int GRID_SIZE\<rfloor>\<rparr>"

subsection \<open>The high-score store\<close>

text \<open>
  What \<^verbatim>\<open>JSON.parse\<close> returns: any JSON value. Numbers are integers, as the scores
  that the game writes are; an object is the list of its properties, with distinct keys.
\<close>

datatype json =
    JNull
  | JBool bool
  | JNum int
  | JStr string
  | JArr "json list"
  | JObj "(string \<times> json) list"

text \<open>
  \<open>ENOENT\<close>: \<^verbatim>\<open>fs.readFile\<close> finds no file. \<open>SyntaxError\<close>: \<^verbatim>\<open>JSON.parse\<close> rejects
  the text. \<open>TypeError\<close>: a method or a property is read from a value that has none.
  \<open>OutsideModel\<close> is no JavaScript error: it marks the inputs on which the model of
  \<^verbatim>\<open>saveHighScore\<close> says nothing (see there).
\<close>

datatype error = ENOENT | SyntaxError | TypeError | OutsideModel

record host =
  Math_random :: "nat \<Rightarrow> real"
  JSON_parse :: "string \<Rightarrow> error + json"
  JSON_stringify :: "json \<Rightarrow> string"
  prompt_name :: string
  toISOString :: string

text \<open>
  The file \<^verbatim>\<open>HIGHSCORE_FILE\<close> is \<open>None\<close> when it does not exist, and \<open>Some data\<close>
  when it holds the text \<open>data\<close>.
\<close>

definition readFile :: "string option \<Rightarrow> error + string" where
  "readFile file = (case file of None \<Rightarrow> Inl ENOENT | Some data \<Rightarrow> Inr data)"

text \<open>
  \<^verbatim>\<open>try { return JSON.parse(await fs.readFile(...)) } catch { return [] }\<close>: the
  \<^verbatim>\<open>catch\<close> has no binding and no condition, so both failures end in the empty array.
\<close>

definition loadHighScores :: "host \<Rightarrow> string option \<Rightarrow> error + json" where
  "loadHighScores H file =
     (case readFile file of
        Inl e \<Rightarrow> Inr (JArr [])
      | Inr data \<Rightarrow>
          (case JSON_parse H data of
             Inl e \<Rightarrow> Inr (JArr [])
           | Inr highScores \<Rightarrow> Inr highScores))"

text \<open>The object literal \<^verbatim>\<open>{ name, score, date: new Date().toISOString() }\<close>.\<close>

definition entry :: "string \<Rightarrow> int \<Rightarrow> string \<Rightarrow> json" where
  "entry name score date = JObj [(''name'', JStr name), (''score'', JNum score), (''date'', JStr date)]"

text \<open>\<^verbatim>\<open>a.score\<close>, when \<open>a\<close> is an object whose property \<^verbatim>\<open>score\<close> is a number.\<close>

definition score_of :: "json \<Rightarrow> int option" where
  "score_of a =
     (case a of
        JObj props \<Rightarrow> (case map_of props ''score'' of Some (JNum n) \<Rightarrow> Some n | _ \<Rightarrow> None)
      | _ \<Rightarrow> None)"

definition has_score :: "json \<Rightarrow> bool" where
  "has_score a = (score_of a \<noteq> None)"

definition score_num :: "json \<Rightarrow> int" where
  "score_num a = (case score_of a of Some n \<Rightarrow> n | None \<Rightarrow> 0)"

text \<open>
  The three array calls of \<^verbatim>\<open>saveHighScore\<close>:
  \<^verbatim>\<open>highScores.push(e); highScores.sort((a, b) => b.score - a.score); highScores.splice(5)\<close>.
  The comparator is negative, so \<open>a\<close> goes first, exactly when \<open>a\<close> has the greater score;
  \<^verbatim>\<open>Array.prototype.sort\<close> is stable, as \<open>sort_key\<close> is. \<^verbatim>\<open>splice(5)\<close> removes
  everything from index 5 on.
\<close>

definition pushSortSplice :: "json list \<Rightarrow> json \<Rightarrow> json list" where
  "pushSortSplice highScores e = take 5 (sort_key (\<lambda>a. - score_num a) (highScores @ [e]))"

text \<open>
  \<^verbatim>\<open>saveHighScore\<close> returns the new state of the file. When the loaded value is no array
  it has no \<^verbatim>\<open>push\<close>, and the call raises. When an element of the array is not an object
  with a numeric \<^verbatim>\<open>score\<close>, the comparator yields \<^verbatim>\<open>NaN\<close> or raises, and the order
  that \<^verbatim>\<open>sort\<close> then produces is left to the implementation: the model stops there with
  \<open>OutsideModel\<close>. Failures of \<^verbatim>\<open>fs.writeFile\<close> are not modelled.
\<close>

definition saveHighScore :: "host \<Rightarrow> int \<Rightarrow> string \<Rightarrow> string option \<Rightarrow> error + string option" where
  "saveHighScore H score name file =
     (case loadHighScores H file of
        Inl e \<Rightarrow> Inl e
      | Inr (JArr highScores) \<Rightarrow>
          (let e = entry name score (toISOString H) in
           if list_all has_score (highScores @ [e])
           then Inr (Some (JSON_stringify H (JArr (pushSortSplice highScores e))))
           else Inl OutsideModel)
      | Inr _ \<Rightarrow> Inl TypeError)"

subsection \<open>The game\<close>

datatype glyph = HeadGlyph | BodyGlyph | FoodGlyph | Blank

datatype printed = Line string | GameOverLine int | Frame "glyph list list" int

text \<open>
  \<^verbatim>\<open>displayGrid\<close> draws the rows of the grid and the line
  \<^verbatim>\<open>Score: ${snake.length - 1}\<close>. It reads \<^verbatim>\<open>snake[0].row\<close>, which raises on an empty
  snake. \<open>glyphAt\<close> is the body of its inner loop, with \<open>s0\<close> for \<^verbatim>\<open>snake[0]\<close>.
\<close>

definition glyphAt :: "cell \<Rightarrow> cell list \<Rightarrow> cell \<Rightarrow> int \<Rightarrow> int \<Rightarrow> glyph" where
  "glyphAt s0 snake food r c =
     (if row s0 = r \<and> col s0 = c then HeadGlyph
      else if some_at \<lparr>row = r, col = c\<rparr> snake then BodyGlyph
      else if row food = r \<and> col food = c then FoodGlyph
      else Blank)"

definition frameOf :: "cell \<Rightarrow> cell list \<Rightarrow> cell \<Rightarrow> printed" where
  "frameOf s0 snake food =
     Frame (map (\<lambda>r. map (\<lambda>c. glyphAt s0 snake food r c) [0..GRID_SIZE - 1]) [0..GRID_SIZE - 1])
           (int (length snake) - 1)"

definition displayGrid :: "cell list \<Rightarrow> cell \<Rightarrow> error + printed" where
  "displayGrid snake food =
     (case snake of
        [] \<Rightarrow> Inl TypeError
      | s0 # _ \<Rightarrow> Inr (frameOf s0 snake food))"

text \<open>
  The variables of \<^verbatim>\<open>playGame\<close>, and with them: \<open>calls\<close>, the number of calls of
  \<^verbatim>\<open>Math.random()\<close> made so far; \<open>timer\<close>, whether the interval set by
  \<^verbatim>\<open>setInterval\<close> has not been cleared; \<open>console\<close>, what has been printed;
  \<open>HIGHSCORE_FILE\<close>, the high-score file.
\<close>

record world =
  snake :: "cell list"
  direction :: dir
  food :: cell
  score :: int
  lastDirection :: dir
  calls :: nat
  timer :: bool
  console :: "printed list"
  HIGHSCORE_FILE :: "string option"

text \<open>How a handler ends when it does not return: an uncaught error, or \<^verbatim>\<open>process.exit()\<close>.\<close>

datatype halt = Uncaught error | ProcessExit

text \<open>The part of \<^verbatim>\<open>playGame\<close> that runs before the first tick.\<close>

definition playGame :: "host \<Rightarrow> string option \<Rightarrow> world option" where
  "playGame H fs =
     (case generateFood (Math_random H) 0 INITIAL_SNAKE of
        None \<Rightarrow> None
      | Some (food0, k) \<Rightarrow>
          Some \<lparr>snake = INITIAL_SNAKE, direction = Right, food = food0, score = 0,
                lastDirection = Right, calls = k, timer = True,
                console = [Line ''Welcome to the Snake Game!'',
                           Line ''Use WASD or arrow keys to move. Press Q to quit.''],
                HIGHSCORE_FILE = fs\<rparr>)"

text \<open>\<^verbatim>\<open>head = { ...snake[0] }; head.row += DIRECTIONS[direction].row; head.col += ...\<close>\<close>

definition nextHead :: "cell \<Rightarrow> dir \<Rightarrow> cell" where
  "nextHead s0 d = \<lparr>row = row s0 + row (DIRECTIONS d), col = col s0 + col (DIRECTIONS d)\<rparr>"

definition redraw :: "world \<Rightarrow> (halt + world) option" where
  "redraw w =
     (case displayGrid (snake w) (food w) of
        Inl e \<Rightarrow> Some (Inl (Uncaught e))
      | Inr frame \<Rightarrow> Some (Inr (w\<lparr>console := console w @ [frame]\<rparr>)))"

text \<open>
  The collision branch of the timer callback: \<^verbatim>\<open>clearInterval(gameLoop)\<close>, the line
  \<^verbatim>\<open>Game over! Your score: ${score}\<close>, the prompt for the name, and
  \<^verbatim>\<open>saveHighScore(score, name)\<close>. A call of \<^verbatim>\<open>saveHighScore\<close> that raises ends the
  callback with that error.
\<close>

definition gameOver :: "host \<Rightarrow> world \<Rightarrow> (halt + world) option" where
  "gameOver H w =
     (let w1 = w\<lparr>timer := False, console := console w @ [GameOverLine (score w)]\<rparr> in
      case saveHighScore H (score w) (prompt_name H) (HIGHSCORE_FILE w) of
        Inl e \<Rightarrow> Some (Inl (Uncaught e))
      | Inr f \<Rightarrow> Some (Inr (w1\<lparr>HIGHSCORE_FILE := f\<rparr>)))"

text \<open>
  One run of the timer callback. Its collision branch uses \<^verbatim>\<open>await\<close>, so the callback
  is read as an \<^verbatim>\<open>async\<close> function, although the arrow function passed to
  \<^verbatim>\<open>setInterval\<close> does not carry that keyword in the source; the awaited calls are
  taken in sequence. \<open>None\<close> is the callback that never returns, because \<^verbatim>\<open>generateFood\<close> does
  not. \<^verbatim>\<open>snake.slice(1)\<close> is \<open>tl\<close>, \<^verbatim>\<open>unshift\<close> is \<open>#\<close>, \<^verbatim>\<open>pop\<close> is
  \<open>butlast\<close>. On an empty snake the head has no coordinates, no branch of the callback
  adds a segment, and \<^verbatim>\<open>displayGrid\<close> raises.
\<close>

definition gameLoop :: "host \<Rightarrow> world \<Rightarrow> (halt + world) option" where
  "gameLoop H w =
     (case snake w of
        [] \<Rightarrow> Some (Inl (Uncaught TypeError))
      | s0 # rest \<Rightarrow>
          (let head = nextHead s0 (direction w) in
           if isCollision head rest then gameOver H w
           else
             (let snake1 = head # snake w in
              if row head = row (food w) \<and> col head = col (food w) then
                (case generateFood (Math_random H) (calls w) snake1 of
                   None \<Rightarrow> None
                 | Some (food1, k) \<Rightarrow>
                     redraw (w\<lparr>snake := snake1, score := score w + 1, food := food1, calls := k\<rparr>))
              else redraw (w\<lparr>snake := butlast snake1\<rparr>))))"

text \<open>The timer runs the callback once per period for as long as the interval is set.\<close>

definition tick :: "host \<Rightarrow> world \<Rightarrow> (halt + world) option" where
  "tick H w = (if timer w then gameLoop H w else Some (Inr w))"

definition isOppositeDirection :: "dir \<Rightarrow> dir \<Rightarrow> bool" where
  "isOppositeDirection dir1 dir2 =
     ((dir1 = Up \<and> dir2 = Down) \<or>
      (dir1 = Down \<and> dir2 = Up) \<or>
      (dir1 = Left \<and> dir2 = Right) \<or>
      (dir1 = Right \<and> dir2 = Left))"

text \<open>
  The direction that the keypress handler reads from its arguments \<^verbatim>\<open>str\<close> and
  \<^verbatim>\<open>key.name\<close>, either of which may be undefined (\<open>None\<close>).
\<close>

definition newDirection :: "string option \<Rightarrow> string option \<Rightarrow> dir option" where
  "newDirection str key_name =
     (if key_name = Some ''up'' \<or> str = Some ''w'' then Some Up
      else if key_name = Some ''down'' \<or> str = Some ''s'' then Some Down
      else if key_name = Some ''left'' \<or> str = Some ''a'' then Some Left
      else if key_name = Some ''right'' \<or> str = Some ''d'' then Some Right
      else None)"

definition keypress :: "string option \<Rightarrow> string option \<Rightarrow> world \<Rightarrow> halt + world" where
  "keypress str key_name w =
     (if key_name = Some ''q'' then Inl ProcessExit
      else
        (case newDirection str key_name of
           None \<Rightarrow> Inr w
         | Some d \<Rightarrow>
             if \<not> isOppositeDirection d (lastDirection w)
             then Inr (w\<lparr>direction := d, lastDirection := d\<rparr>)
             else Inr w))"

text \<open>
  The event loop: ticks of the timer and keypresses, in the order in which they happen.
\<close>

datatype event = Tick | Keypress "string option" "string option"

fun run :: "host \<Rightarrow> event list \<Rightarrow> world \<Rightarrow> (halt + world) option" where
  "run H [] w = Some (Inr w)"
| "run H (Tick # events) w =
     (case tick H w of
        None \<Rightarrow> None
      | Some (Inl h) \<Rightarrow> Some (Inl h)
      | Some (Inr w') \<Rightarrow> run H events w')"
| "run H (Keypress str key_name # events) w =
     (case keypress str key_name w of
        Inl h \<Rightarrow> Some (Inl h)
      | Inr w' \<Rightarrow> run H events w')"

definition game :: "host \<Rightarrow> string option \<Rightarrow> event list \<Rightarrow> (halt + world) option" where
  "game H fs events = (case playGame H fs of None \<Rightarrow> None | Some w \<Rightarrow> run H events w)"

text \<open>
  What holds of the state throughout a game: the snake has a segment, the score is the
  number of segments after the first, the food is on no segment, the current direction is
  the last accepted one, and the score line of the frame drawn last, if a frame is the last
  thing printed (\<open>shown_score\<close>), shows the score.
\<close>

definition shown_score :: "printed list \<Rightarrow> int option" where
  "shown_score printed_lines =
     (case rev printed_lines of Frame g n # _ \<Rightarrow> Some n | _ \<Rightarrow> None)"

definition game_inv :: "world \<Rightarrow> bool" where
  "game_inv w \<longleftrightarrow>
     snake w \<noteq> [] \<and> score w = int (length (snake w)) - 1 \<and> food w \<notin> set (snake w) \<and>
     direction w = lastDirection w \<and>
     (case shown_score (console w) of None \<Rightarrow> True | Some n \<Rightarrow> n = score w)"

text \<open>
  The filter that the specification calls \<open>acceptDirection\<close>, in the words of the
  specification: the requested direction, unless it is the exact opposite of the last
  accepted one, which is then returned unchanged.
\<close>

definition acceptDirection_spec :: "dir \<Rightarrow> dir \<Rightarrow> dir" where
  "acceptDirection_spec requested lastAccepted =
     (if (requested = Up \<and> lastAccepted = Down) \<or> (requested = Down \<and> lastAccepted = Up) \<or>
         (requested = Left \<and> lastAccepted = Right) \<or> (requested = Right \<and> lastAccepted = Left)
      then lastAccepted else requested)"

subsection \<open>Example hosts and states\<close>

text \<open>
  A compact printer of JSON values, for the example host. It is not \<^verbatim>\<open>JSON.stringify\<close>
  (it neither indents nor escapes); the theorems about the program hold for every host.
\<close>

function show_nat :: "nat \<Rightarrow> string" where
  "show_nat n =
     (if n < 10 then [''0123456789'' ! n]
      else show_nat (n div 10) @ [''0123456789'' ! (n mod 10)])"
  by pat_completeness auto
termination
  by (relation "measure id") auto

definition show_int :: "int \<Rightarrow> string" where
  "show_int i = (if i < 0 then CHR ''-'' # show_nat (nat (- i)) else show_nat (nat i))"

definition quoted :: "string \<Rightarrow> string" where
  "quoted s = [CHR 0x22] @ s @ [CHR 0x22]"

fun commas :: "string list \<Rightarrow> string" where
  "commas [] = []"
| "commas [s] = s"
| "commas (s # t # ss) = s @ '','' @ commas (t # ss)"

primrec show_json :: "json \<Rightarrow> string" where
  "show_json JNull = ''null''"
| "show_json (JBool b) = (if b then ''true'' else ''false'')"
| "show_json (JNum n) = show_int n"
| "show_json (JStr s) = quoted s"
| "show_json (JArr vs) = ''['' @ commas (map show_json vs) @ '']''"
| "show_json (JObj ps) =
     ''{'' @ commas (map (\<lambda>(k, s). quoted k @ '':'' @ s) (map (map_prod id show_json) ps)) @ ''}''"

text \<open>A table of six entries in ascending order of score.\<close>

definition six_entries :: "json list" where
  "six_entries = map (\<lambda>n. entry ''Ann'' n ''2024-05-01T10:00:00.000Z'') [1, 2, 3, 4, 5, 6]"

definition unsorted_six :: json where
  "unsorted_six = JArr six_entries"

text \<open>The example parser inverts the printer on the values listed, and rejects every other text.\<close>

definition demo_values :: "json list" where
  "demo_values = [JArr [], JNum 42, unsorted_six]"

definition demo_parse :: "string \<Rightarrow> error + json" where
  "demo_parse data =
     (case find (\<lambda>v. show_json v = data) demo_values of
        None \<Rightarrow> Inl SyntaxError
      | Some v \<Rightarrow> Inr v)"

text \<open>
  The example random source selects the cell \<open>(5, 6)\<close> with its first two numbers, the cell
  \<open>(5, 5)\<close> with the next two, and \<open>(9, 9)\<close> from then on.
\<close>

definition demo_random :: "nat \<Rightarrow> real" where
  "demo_random k =
     (if k = 0 then 5 / 10 else if k = 1 then 65 / 100 else if k < 4 then 5 / 10 else 95 / 100)"

definition demo_host :: host where
  "demo_host = \<lparr>Math_random = demo_random, JSON_parse = demo_parse, JSON_stringify = show_json,
     prompt_name = ''Player'', toISOString = ''2024-05-01T12:00:00.000Z''\<rparr>"

text \<open>The state in which the example host starts the game.\<close>

definition demo_start :: world where
  "demo_start =
     \<lparr>snake = [\<lparr>row = 5, col = 5\<rparr>], direction = Right, food = \<lparr>row = 5, col = 6\<rparr>, score = 0,
      lastDirection = Right, calls = 2, timer = True,
      console = [Line ''Welcome to the Snake Game!'',
                 Line ''Use WASD or arrow keys to move. Press Q to quit.''],
      HIGHSCORE_FILE = None\<rparr>"


text \<open>
  A snake of four segments whose head, at \<open>(5, 5)\<close>, is about to move down into its own tail,
  at \<open>(6, 5)\<close>; the food lies on that cell too.
\<close>

definition tail_chase :: world where
  "tail_chase =
     \<lparr>snake = [\<lparr>row = 5, col = 5\<rparr>, \<lparr>row = 5, col = 6\<rparr>, \<lparr>row = 6, col = 6\<rparr>, \<lparr>row = 6, col = 5\<rparr>],
      direction = Down, food = \<lparr>row = 6, col = 5\<rparr>, score = 3, lastDirection = Down,
      calls = 2, timer = True, console = [], HIGHSCORE_FILE = None\<rparr>"


text \<open>A snake of length 1 in the corner \<open>(0, 0)\<close>, heading up.\<close>

definition corner :: world where
  "corner =
     \<lparr>snake = [\<lparr>row = 0, col = 0\<rparr>], direction = Up, food = \<lparr>row = 9, col = 9\<rparr>, score = 0,
      lastDirection = Up, calls = 2, timer = True, console = [], HIGHSCORE_FILE = None\<rparr>"

subsection \<open>Facts about the grid\<close>

lemma some_at_mem: "some_at pos sn \<longleftrightarrow> pos \<in> set sn"
proof -
  have "row segment = row pos \<and> col segment = col pos \<longleftrightarrow> segment = pos" for segment :: cell
    by (cases segment, cases pos) auto
  then show ?thesis
    by (simp add: some_at_def list_ex_iff)
qed

lemma generateFood_unfold:
  "generateFood random k sn =
     (if drawn random k \<in> set sn then generateFood random (k + 2) sn
      else Some (drawn random k, k + 2))"
  by (subst generateFood.simps) (simp add: drawn_def some_at_mem Let_def)

lemma generateFood_free:
  "generateFood random k sn = Some (fd, k') \<Longrightarrow> fd \<notin> set sn"
proof -
  have "generateFood random k sn = Some r \<Longrightarrow> fst r \<notin> set sn" for r
  proof (induction random k sn r rule: generateFood.raw_induct [rotated, consumes 1])
    case (1 loop random k sn r)
    show ?case
    proof (cases "drawn random k \<in> set sn")
      case True
      with 1(2) have "loop random (k + 2) sn = Some r"
        by (simp add: drawn_def some_at_mem Let_def)
      then show ?thesis by (rule 1(1))
    next
      case False
      with 1(2) have "r = (drawn random k, k + 2)"
        by (simp add: drawn_def some_at_mem Let_def)
      with False show ?thesis by simp
    qed
  qed
  then show "generateFood random k sn = Some (fd, k') \<Longrightarrow> fd \<notin> set sn"
    by fastforce
qed


lemma generateFood_first_free:
  "drawn random (k + 2 * j) \<notin> set sn \<Longrightarrow>
   \<forall>i<j. drawn random (k + 2 * i) \<in> set sn \<Longrightarrow>
   generateFood random k sn = Some (drawn random (k + 2 * j), k + 2 * j + 2)"
proof (induction j arbitrary: k)
  case 0
  then show ?case by (subst generateFood_unfold) simp
next
  case (Suc j)
  from Suc.prems(2) have occ: "drawn random k \<in> set sn"
    by (metis add.right_neutral mult_0_right zero_less_Suc)
  have free: "drawn random (k + 2 + 2 * j) \<notin> set sn"
    using Suc.prems(1) by (simp add: add.assoc)
  have before: "\<forall>i<j. drawn random (k + 2 + 2 * i) \<in> set sn"
  proof (intro allI impI)
    fix i assume "i < j"
    then have "drawn random (k + 2 * Suc i) \<in> set sn"
      using Suc.prems(2) by (meson Suc_less_eq)
    then show "drawn random (k + 2 + 2 * i) \<in> set sn"
      by (simp add: add.assoc)
  qed
  have "generateFood random (k + 2) sn = Some (drawn random (k + 2 + 2 * j), k + 2 + 2 * j + 2)"
    using Suc.IH [OF free before] .
  with occ show ?case
    by (subst generateFood_unfold) (simp add: add.assoc)
qed

lemma generateFood_returns:
  assumes "drawn random (k + 2 * j) \<notin> set sn"
  shows "\<exists>fd k'. generateFood random k sn = Some (fd, k') \<and> fd \<notin> set sn"
proof -
  define m where "m = (LEAST i. drawn random (k + 2 * i) \<notin> set sn)"
  have free: "drawn random (k + 2 * m) \<notin> set sn"
    unfolding m_def using assms by (rule LeastI)
  have "\<forall>i<m. drawn random (k + 2 * i) \<in> set sn"
    unfolding m_def using not_less_Least by blast
  with free show ?thesis
    using generateFood_first_free by blast
qed





subsection \<open>Facts about the high-score store\<close>

lemma score_num_entry: "score_num (entry name sc date) = sc"
  by (simp add: score_num_def score_of_def entry_def)

lemma has_score_entry: "has_score (entry name sc date)"
  by (simp add: has_score_def score_of_def entry_def)

lemma pushSortSplice_length: "length (pushSortSplice t e) = min 5 (length t + 1)"
  by (simp add: pushSortSplice_def)

lemma sorted_desc_sort_key:
  "sorted_wrt (\<lambda>a b. score_num a \<ge> score_num b) (sort_key (\<lambda>a. - score_num a) xs)"
proof -
  have "sorted (map (\<lambda>a. - score_num a) (sort_key (\<lambda>a. - score_num a) xs))"
    by (rule sorted_sort_key)
  then show ?thesis by (simp add: sorted_map)
qed

lemma pushSortSplice_sorted:
  "sorted_wrt (\<lambda>a b. score_num a \<ge> score_num b) (pushSortSplice t e)"
  unfolding pushSortSplice_def by (rule sorted_wrt_take) (rule sorted_desc_sort_key)

lemma pushSortSplice_dropped:
  "mset (pushSortSplice t e) + mset (drop 5 (sort_key (\<lambda>a. - score_num a) (t @ [e]))) = mset (t @ [e])
   \<and> (\<forall>x \<in> set (drop 5 (sort_key (\<lambda>a. - score_num a) (t @ [e]))).
        \<forall>y \<in> set (pushSortSplice t e). score_num x \<le> score_num y)"
proof -
  let ?S = "sort_key (\<lambda>a. - score_num a) (t @ [e])"
  have "mset (take 5 ?S) + mset (drop 5 ?S) = mset ?S"
    by (metis append_take_drop_id mset_append)
  then have m: "mset (pushSortSplice t e) + mset (drop 5 ?S) = mset (t @ [e])"
    by (simp add: pushSortSplice_def)
  have "sorted_wrt (\<lambda>a b. score_num a \<ge> score_num b) (take 5 ?S @ drop 5 ?S)"
    using sorted_desc_sort_key [of "t @ [e]"] by simp
  then have "\<forall>y \<in> set (take 5 ?S). \<forall>x \<in> set (drop 5 ?S). score_num x \<le> score_num y"
    unfolding sorted_wrt_append by blast
  with m show ?thesis by (auto simp: pushSortSplice_def)
qed

lemma pushSortSplice_inserts: "length t < 5 \<Longrightarrow> mset (pushSortSplice t e) = mset t + {#e#}"
  by (simp add: pushSortSplice_def)

lemma saveHighScore_table:
  assumes "loadHighScores H file = Inr (JArr t)" "list_all has_score t"
  shows "saveHighScore H sc name file =
     Inr (Some (JSON_stringify H (JArr (pushSortSplice t (entry name sc (toISOString H))))))"
  using assms by (simp add: saveHighScore_def has_score_entry Let_def)

lemma saveHighScore_no_array:
  assumes "loadHighScores H file = Inr v" "\<forall>t. v \<noteq> JArr t"
  shows "saveHighScore H sc name file = Inl TypeError"
  using assms by (cases v) (simp_all add: saveHighScore_def)


lemma map_insort_key:
  "map f (insort_key (\<lambda>a. g (f a)) x xs) = insort_key g (f x) (map f xs)"
  by (induction xs) simp_all

lemma map_sort_key: "map f (sort_key (\<lambda>a. g (f a)) xs) = sort_key g (map f xs)"
  by (induction xs) (simp_all add: map_insort_key)

lemma pushSortSplice_scores:
  "map score_num (pushSortSplice t e) = take 5 (sort_key uminus (map score_num t @ [score_num e]))"
proof -
  have "map score_num (pushSortSplice t e) =
      take 5 (map score_num (sort_key (\<lambda>a. - score_num a) (t @ [e])))"
    by (simp add: pushSortSplice_def take_map)
  also have "map score_num (sort_key (\<lambda>a. - score_num a) (t @ [e])) =
      sort_key uminus (map score_num (t @ [e]))"
    by (rule map_sort_key)
  finally show ?thesis by simp
qed

lemma foldl_pushSortSplice_scores:
  "map score_num (foldl pushSortSplice t es) =
     foldl (\<lambda>ss s. take 5 (sort_key uminus (ss @ [s]))) (map score_num t) (map score_num es)"
  by (induction es arbitrary: t) (simp_all add: pushSortSplice_scores)

lemma top5_of_example:
  "foldl (\<lambda>ss s. take 5 (sort_key uminus (ss @ [s]))) [] [3, 1, 4, 1, 5, 9, 2, 6 :: int] = [9, 6, 5, 4, 3]"
  by simp

subsection \<open>Facts about one run of the timer callback\<close>

lemma cell_eq_iff: "(row a = row b \<and> col a = col b) \<longleftrightarrow> a = (b::cell)"
  by (cases a, cases b) auto

lemma gameLoop_collision:
  "snake w = s0 # rest \<Longrightarrow> isCollision (nextHead s0 (direction w)) rest \<Longrightarrow>
   gameLoop H w = gameOver H w"
  by (simp add: gameLoop_def Let_def)

lemma gameLoop_move:
  assumes "snake w = s0 # rest" "\<not> isCollision (nextHead s0 (direction w)) rest"
    "nextHead s0 (direction w) \<noteq> food w"
  shows "gameLoop H w = Some (Inr (w\<lparr>snake := nextHead s0 (direction w) # butlast (snake w),
            console := console w @ [frameOf (nextHead s0 (direction w))
               (nextHead s0 (direction w) # butlast (snake w)) (food w)]\<rparr>))"
  using assms by (simp add: gameLoop_def Let_def cell_eq_iff redraw_def displayGrid_def)

lemma gameLoop_eat:
  assumes "snake w = s0 # rest" "\<not> isCollision (nextHead s0 (direction w)) rest"
    "nextHead s0 (direction w) = food w"
  shows "gameLoop H w =
     (case generateFood (Math_random H) (calls w) (food w # snake w) of
        None \<Rightarrow> None
      | Some (food1, k) \<Rightarrow>
          Some (Inr (w\<lparr>snake := food w # snake w, score := score w + 1, food := food1, calls := k,
             console := console w @ [frameOf (food w) (food w # snake w) food1]\<rparr>)))"
  using assms by (auto simp: gameLoop_def Let_def redraw_def displayGrid_def split: option.split)

lemma gameOver_cases:
  "(\<exists>e. gameOver H w = Some (Inl (Uncaught e)) \<and>
        saveHighScore H (score w) (prompt_name H) (HIGHSCORE_FILE w) = Inl e) \<or>
   (\<exists>f. gameOver H w = Some (Inr (w\<lparr>timer := False,
            console := console w @ [GameOverLine (score w)], HIGHSCORE_FILE := f\<rparr>)) \<and>
        saveHighScore H (score w) (prompt_name H) (HIGHSCORE_FILE w) = Inr f)"
  by (cases "saveHighScore H (score w) (prompt_name H) (HIGHSCORE_FILE w)")
     (simp_all add: gameOver_def)

lemma gameOver_console:
  "gameOver H w = Some (Inr w') \<Longrightarrow> console w' = console w @ [GameOverLine (score w)] \<and> \<not> timer w'"
  using gameOver_cases [of H w] by auto

lemma gameLoop_console:
  assumes "snake w = s0 # rest" "\<not> isCollision (nextHead s0 (direction w)) rest"
    "gameLoop H w = Some r"
  shows "\<exists>w' g n. r = Inr w' \<and> console w' = console w @ [Frame g n] \<and> timer w' = timer w"
proof (cases "nextHead s0 (direction w) = food w")
  case False
  from gameLoop_move [OF assms(1,2) False, of H] assms(3) show ?thesis
    by (auto simp: frameOf_def)
next
  case True
  from gameLoop_eat [OF assms(1,2) True, of H] assms(3) show ?thesis
    by (auto simp: frameOf_def split: option.splits)
qed

subsection \<open>Facts about the keypress handler and the example host\<close>

lemma keypress_direction:
  assumes "key_name \<noteq> Some ''q''" "newDirection str key_name = Some requested"
  shows "keypress str key_name w =
     Inr (if isOppositeDirection requested (lastDirection w) then w
          else w\<lparr>direction := requested, lastDirection := requested\<rparr>)"
  using assms by (simp add: keypress_def)

lemma every_direction_has_a_key:
  "\<exists>str key_name. key_name \<noteq> Some ''q'' \<and> newDirection str key_name = Some requested"
proof (cases requested)
  case Up
  then have "Some ''up'' \<noteq> Some ''q'' \<and> newDirection None (Some ''up'') = Some requested"
    by (simp add: newDirection_def)
  then show ?thesis by blast
next
  case Down
  then have "Some ''down'' \<noteq> Some ''q'' \<and> newDirection None (Some ''down'') = Some requested"
    by (simp add: newDirection_def)
  then show ?thesis by blast
next
  case Left
  then have "Some ''left'' \<noteq> Some ''q'' \<and> newDirection None (Some ''left'') = Some requested"
    by (simp add: newDirection_def)
  then show ?thesis by blast
next
  case Right
  then have "Some ''right'' \<noteq> Some ''q'' \<and> newDirection None (Some ''right'') = Some requested"
    by (simp add: newDirection_def)
  then show ?thesis by blast
qed

lemma acceptDirection_spec_eq:
  "acceptDirection_spec requested lastAccepted =
     (if isOppositeDirection requested lastAccepted then lastAccepted else requested)"
  by (simp add: acceptDirection_spec_def isOppositeDirection_def)

lemma demo_parse_brace: "demo_parse ''{'' = Inl SyntaxError"
  by (simp add: demo_parse_def demo_values_def unsorted_six_def six_entries_def entry_def
        show_int_def quoted_def)

subsection \<open>Facts about whole games\<close>

lemma shown_score_snoc [simp]:
  "shown_score (ls @ [Frame g n]) = Some n"
  "shown_score (ls @ [GameOverLine m]) = None"
  by (simp_all add: shown_score_def)

lemma shown_score_last:
  "ls \<noteq> [] \<Longrightarrow> last ls = Frame g n \<Longrightarrow> shown_score ls = Some n"
  by (cases ls rule: rev_cases) (simp_all add: shown_score_def)

lemma playGame_inv: "playGame H fs = Some w \<Longrightarrow> game_inv w"
  by (auto simp: playGame_def game_inv_def shown_score_def INITIAL_SNAKE_def split: option.splits
           dest: generateFood_free)

lemma gameOver_fields:
  assumes "gameOver H w = Some (Inr w')"
  shows "snake w' = snake w \<and> score w' = score w \<and> food w' = food w \<and> direction w' = direction w
     \<and> lastDirection w' = lastDirection w \<and> calls w' = calls w \<and> \<not> timer w'
     \<and> console w' = console w @ [GameOverLine (score w)]"
  using gameOver_cases [of H w] assms by auto

lemma gameLoop_inv:
  assumes "game_inv w" "gameLoop H w = Some (Inr w')"
  shows "game_inv w'"
proof -
  from assms(1) obtain s0 rest where sn: "snake w = s0 # rest"
    by (auto simp: game_inv_def neq_Nil_conv)
  show ?thesis
  proof (cases "isCollision (nextHead s0 (direction w)) rest")
    case True
    with sn assms(2) have "gameOver H w = Some (Inr w')" by (simp add: gameLoop_collision)
    from gameOver_fields [OF this] assms(1) show ?thesis by (simp add: game_inv_def)
  next
    case nc: False
    then have notin: "nextHead s0 (direction w) \<notin> set rest"
      by (simp add: isCollision_def some_at_mem)
    show ?thesis
    proof (cases "nextHead s0 (direction w) = food w")
      case False
      from gameLoop_move [OF sn nc False, of H] assms(2)
      have w': "w' = w\<lparr>snake := nextHead s0 (direction w) # butlast (snake w),
            console := console w @ [frameOf (nextHead s0 (direction w))
               (nextHead s0 (direction w) # butlast (snake w)) (food w)]\<rparr>" by simp
      have "food w \<notin> set (butlast (snake w))"
        using assms(1) by (auto simp: game_inv_def dest: in_set_butlastD)
      with False assms(1) sn show ?thesis
        by (auto simp: w' game_inv_def frameOf_def)
    next
      case True
      from gameLoop_eat [OF sn nc True, of H] assms(2) obtain food1 k where
        g: "generateFood (Math_random H) (calls w) (food w # snake w) = Some (food1, k)" and
        w': "w' = w\<lparr>snake := food w # snake w, score := score w + 1, food := food1, calls := k,
             console := console w @ [frameOf (food w) (food w # snake w) food1]\<rparr>"
        by (auto split: option.splits)
      from generateFood_free [OF g] assms(1) show ?thesis
        by (auto simp: w' game_inv_def frameOf_def)
    qed
  qed
qed

lemma tick_inv: "game_inv w \<Longrightarrow> tick H w = Some (Inr w') \<Longrightarrow> game_inv w'"
  by (auto simp: tick_def gameLoop_inv split: if_splits)

lemma keypress_inv: "game_inv w \<Longrightarrow> keypress str key_name w = Inr w' \<Longrightarrow> game_inv w'"
  by (auto simp: keypress_def game_inv_def split: if_splits option.splits)

lemma run_inv: "game_inv w \<Longrightarrow> run H events w = Some (Inr w') \<Longrightarrow> game_inv w'"
proof (induction H events w rule: run.induct)
  case (1 H w)
  then show ?case by simp
next
  case (2 H events w)
  then show ?case
    by (auto split: option.splits sum.splits dest: tick_inv)
next
  case (3 H str key_name events w)
  then show ?case
    by (auto split: sum.splits dest: keypress_inv)
qed

lemma game_reaches_inv: "game H fs events = Some (Inr w) \<Longrightarrow> game_inv w"
  by (auto simp: game_def split: option.splits dest: playGame_inv run_inv)

lemma gameLoop_score_mono:
  assumes "gameLoop H w = Some (Inr w')" shows "score w \<le> score w'"
proof (cases "snake w")
  case Nil
  with assms show ?thesis by (simp add: gameLoop_def)
next
  case (Cons s0 rest)
  show ?thesis
  proof (cases "isCollision (nextHead s0 (direction w)) rest")
    case True
    with Cons assms have "gameOver H w = Some (Inr w')" by (simp add: gameLoop_collision)
    from gameOver_fields [OF this] show ?thesis by simp
  next
    case nc: False
    show ?thesis
    proof (cases "nextHead s0 (direction w) = food w")
      case False
      from gameLoop_move [OF Cons nc False, of H] assms show ?thesis by auto
    next
      case True
      from gameLoop_eat [OF Cons nc True, of H] assms show ?thesis
        by (auto split: option.splits)
    qed
  qed
qed

lemma run_score_mono: "run H events w = Some (Inr w') \<Longrightarrow> score w \<le> score w'"
proof (induction H events w rule: run.induct)
  case (1 H w)
  then show ?case by simp
next
  case (2 H events w)
  then show ?case
    by (fastforce simp: tick_def split: option.splits sum.splits if_splits dest: gameLoop_score_mono)
next
  case (3 H str key_name events w)
  then show ?case
    by (fastforce simp: keypress_def split: sum.splits if_splits option.splits)
qed

lemma run_append:
  "run H (es @ es') w =
     (case run H es w of None \<Rightarrow> None | Some (Inl h) \<Rightarrow> Some (Inl h) | Some (Inr w') \<Rightarrow> run H es' w')"
  by (induction H es w rule: run.induct) (auto split: option.splits sum.splits)

lemma game_append:
  "game H fs (es @ es') =
     (case game H fs es of None \<Rightarrow> None | Some (Inl h) \<Rightarrow> Some (Inl h) | Some (Inr w') \<Rightarrow> run H es' w')"
  by (simp add: game_def run_append split: option.splits)

lemma game_append_Inr:
  "game H fs es = Some (Inr w) \<Longrightarrow> game H fs (es @ es') = run H es' w"
  by (simp add: game_append)

lemma gameLoop_score_step:
  assumes "gameLoop H w = Some (Inr w')" shows "score w' \<le> score w + 1"
proof (cases "snake w")
  case Nil
  with assms show ?thesis by (simp add: gameLoop_def)
next
  case (Cons s0 rest)
  show ?thesis
  proof (cases "isCollision (nextHead s0 (direction w)) rest")
    case True
    with Cons assms have "gameOver H w = Some (Inr w')" by (simp add: gameLoop_collision)
    from gameOver_fields [OF this] show ?thesis by simp
  next
    case nc: False
    show ?thesis
    proof (cases "nextHead s0 (direction w) = food w")
      case False
      from gameLoop_move [OF Cons nc False, of H] assms show ?thesis by auto
    next
      case True
      from gameLoop_eat [OF Cons nc True, of H] assms show ?thesis
        by (auto split: option.splits)
    qed
  qed
qed

lemma run_single_score: "run H [e] w = Some (Inr w') \<Longrightarrow> score w' \<le> score w + 1"
proof (cases e)
  case Tick
  assume "run H [e] w = Some (Inr w')"
  with Tick show ?thesis
    by (auto simp: tick_def split: option.splits sum.splits if_splits dest: gameLoop_score_step)
next
  case (Keypress str key_name)
  assume "run H [e] w = Some (Inr w')"
  with Keypress show ?thesis
    by (auto simp: keypress_def split: sum.splits if_splits option.splits)
qed


subsection \<open>The example game\<close>

lemma playGame_demo: "playGame demo_host None = Some demo_start"
  by (simp add: playGame_def demo_host_def INITIAL_SNAKE_def generateFood_unfold drawn_def
        demo_random_def GRID_SIZE_def demo_start_def)

lemma generateFood_demo:
  "generateFood demo_random 2 [\<lparr>row = 5, col = 6\<rparr>, \<lparr>row = 5, col = 5\<rparr>] = Some (\<lparr>row = 9, col = 9\<rparr>, 6)"
  by (simp add: generateFood_unfold drawn_def demo_random_def GRID_SIZE_def)

lemma game_demo_Tick:
  "\<exists>w. game demo_host None [Tick] = Some (Inr w) \<and> snake w = [\<lparr>row = 5, col = 6\<rparr>, \<lparr>row = 5, col = 5\<rparr>]
     \<and> food w = \<lparr>row = 9, col = 9\<rparr> \<and> score w = 1"
proof -
  have s: "snake demo_start = \<lparr>row = 5, col = 5\<rparr> # []" by (simp add: demo_start_def)
  have nc: "\<not> isCollision (nextHead \<lparr>row = 5, col = 5\<rparr> (direction demo_start)) []"
    by (simp add: demo_start_def nextHead_def isCollision_def some_at_def GRID_SIZE_def)
  have eat: "nextHead \<lparr>row = 5, col = 5\<rparr> (direction demo_start) = food demo_start"
    by (simp add: demo_start_def nextHead_def)
  have t: "timer demo_start" by (simp add: demo_start_def)
  show ?thesis
    using gameLoop_eat [OF s nc eat, of demo_host] t
    by (simp add: game_def playGame_demo tick_def)
       (simp add: demo_start_def demo_host_def generateFood_demo)
qed



lemma demo_parse_six: "demo_parse (show_json unsorted_six) = Inr unsorted_six"
  by (simp add: demo_parse_def demo_values_def unsorted_six_def six_entries_def entry_def
        show_int_def quoted_def)

lemma demo_parse_42: "demo_parse ''42'' = Inr (JNum 42)"
  by (simp add: demo_parse_def demo_values_def unsorted_six_def six_entries_def entry_def
        show_int_def quoted_def)

lemma six_entries_scores: "map score_num six_entries = [1, 2, 3, 4, 5, 6]"
  by (simp add: six_entries_def score_num_entry)

lemma six_entries_have_scores: "list_all has_score six_entries"
  by (simp add: six_entries_def has_score_entry)

section \<open>The claims\<close>

text \<open>
  C1. For every snake with at least one segment and every current direction, the timer
  callback takes its game-over branch exactly when the next head (the head moved by the
  current direction) collides with the wall or with the snake without its first segment,
  the current head. The tail belongs to the segments tested: a move into the cell of the
  current tail ends the game whatever the position of the food, also when the food lies on
  that very cell. The next head is never the current head.
\<close>

theorem collision_excludes_head_includes_tail:
  assumes "snake w = s0 # rest"
  shows "(gameLoop H w = gameOver H w \<longleftrightarrow> isCollision (nextHead s0 (direction w)) rest)
     \<and> (rest \<noteq> [] \<and> nextHead s0 (direction w) = last (snake w) \<longrightarrow> gameLoop H w = gameOver H w)
     \<and> nextHead s0 (direction w) \<noteq> s0"
proof (intro conjI impI)
  show "gameLoop H w = gameOver H w \<longleftrightarrow> isCollision (nextHead s0 (direction w)) rest"
  proof
    assume eq: "gameLoop H w = gameOver H w"
    show "isCollision (nextHead s0 (direction w)) rest"
    proof (rule ccontr)
      assume nc: "\<not> isCollision (nextHead s0 (direction w)) rest"
      from gameOver_cases [of H w] obtain r where r: "gameOver H w = Some r" by auto
      with eq have "gameLoop H w = Some r" by simp
      from gameLoop_console [OF assms nc this] obtain w' g n
        where w': "r = Inr w'" "console w' = console w @ [Frame g n]" by auto
      with r gameOver_console [of H w w'] show False by simp
    qed
  next
    assume "isCollision (nextHead s0 (direction w)) rest"
    then show "gameLoop H w = gameOver H w" by (rule gameLoop_collision [OF assms])
  qed
next
  assume a: "rest \<noteq> [] \<and> nextHead s0 (direction w) = last (snake w)"
  then have "nextHead s0 (direction w) \<in> set rest" using assms by simp
  then have "isCollision (nextHead s0 (direction w)) rest"
    by (simp add: isCollision_def some_at_mem)
  then show "gameLoop H w = gameOver H w" by (rule gameLoop_collision [OF assms])
next
  show "nextHead s0 (direction w) \<noteq> s0"
    by (cases "direction w"; cases s0) (auto simp: nextHead_def)
qed

theorem collision_excludes_head_includes_tail_witness:
  "snake tail_chase = \<lparr>row = 5, col = 5\<rparr> # [\<lparr>row = 5, col = 6\<rparr>, \<lparr>row = 6, col = 6\<rparr>, \<lparr>row = 6, col = 5\<rparr>]
   \<and> nextHead \<lparr>row = 5, col = 5\<rparr> (direction tail_chase) = last (snake tail_chase)
   \<and> nextHead \<lparr>row = 5, col = 5\<rparr> (direction tail_chase) = food tail_chase
   \<and> gameLoop demo_host tail_chase = gameOver demo_host tail_chase"
proof -
  have s: "snake tail_chase = \<lparr>row = 5, col = 5\<rparr> # [\<lparr>row = 5, col = 6\<rparr>, \<lparr>row = 6, col = 6\<rparr>, \<lparr>row = 6, col = 5\<rparr>]"
    by (simp add: tail_chase_def)
  have t: "nextHead \<lparr>row = 5, col = 5\<rparr> (direction tail_chase) = last (snake tail_chase)"
    by (simp add: tail_chase_def nextHead_def)
  have f: "nextHead \<lparr>row = 5, col = 5\<rparr> (direction tail_chase) = food tail_chase"
    by (simp add: tail_chase_def nextHead_def)
  from collision_excludes_head_includes_tail [OF s, of demo_host] s t f show ?thesis
    by simp
qed

text \<open>
  C2. Take any state whose snake has a first segment and whose next head does not collide.
  When the next head is not the food, the callback returns, and the new snake is the next
  head followed by the old snake without its last segment: the length and the score are as
  before. When the next head is the food, every result of the callback is a state whose
  snake is the next head followed by the whole old snake: one segment more, and the score
  one higher; the callback has such a result as soon as the random source selects a cell off
  the grown snake at some draw.
\<close>

theorem step_grows_or_conserves:
  assumes "snake w = s0 # rest" and "\<not> isCollision (nextHead s0 (direction w)) rest"
  shows
   "(nextHead s0 (direction w) \<noteq> food w \<longrightarrow>
       (\<exists>w'. gameLoop H w = Some (Inr w') \<and> snake w' = nextHead s0 (direction w) # butlast (snake w)
          \<and> length (snake w') = length (snake w) \<and> score w' = score w))
  \<and> (nextHead s0 (direction w) = food w \<longrightarrow>
       (\<forall>r. gameLoop H w = Some r \<longrightarrow>
          (\<exists>w'. r = Inr w' \<and> snake w' = nextHead s0 (direction w) # snake w
             \<and> length (snake w') = length (snake w) + 1 \<and> score w' = score w + 1)))
  \<and> (nextHead s0 (direction w) = food w \<and>
       (\<exists>j. drawn (Math_random H) (calls w + 2 * j) \<notin> set (nextHead s0 (direction w) # snake w)) \<longrightarrow>
       (\<exists>w'. gameLoop H w = Some (Inr w')))"
proof (intro conjI impI)
  assume ne: "nextHead s0 (direction w) \<noteq> food w"
  from gameLoop_move [OF assms ne, of H] assms(1)
  show "\<exists>w'. gameLoop H w = Some (Inr w') \<and> snake w' = nextHead s0 (direction w) # butlast (snake w)
          \<and> length (snake w') = length (snake w) \<and> score w' = score w"
    by simp
next
  assume eq: "nextHead s0 (direction w) = food w"
  from gameLoop_eat [OF assms eq, of H]
  show "\<forall>r. gameLoop H w = Some r \<longrightarrow>
          (\<exists>w'. r = Inr w' \<and> snake w' = nextHead s0 (direction w) # snake w
             \<and> length (snake w') = length (snake w) + 1 \<and> score w' = score w + 1)"
    by (auto simp: eq split: option.splits)
next
  assume a: "nextHead s0 (direction w) = food w \<and>
       (\<exists>j. drawn (Math_random H) (calls w + 2 * j) \<notin> set (nextHead s0 (direction w) # snake w))"
  then have eq: "nextHead s0 (direction w) = food w" by simp
  from a obtain j where "drawn (Math_random H) (calls w + 2 * j) \<notin> set (food w # snake w)"
    by (auto simp: eq)
  from generateFood_returns [OF this] obtain fd k where
    "generateFood (Math_random H) (calls w) (food w # snake w) = Some (fd, k)" by blast
  with gameLoop_eat [OF assms eq, of H]
  show "\<exists>w'. gameLoop H w = Some (Inr w')" by simp
qed

theorem step_grows_or_conserves_witness:
  "\<exists>w' w''. snake demo_start = [\<lparr>row = 5, col = 5\<rparr>] \<and> score demo_start = 0
     \<and> nextHead \<lparr>row = 5, col = 5\<rparr> (direction demo_start) = food demo_start
     \<and> gameLoop demo_host demo_start = Some (Inr w')
     \<and> snake w' = [\<lparr>row = 5, col = 6\<rparr>, \<lparr>row = 5, col = 5\<rparr>] \<and> score w' = 1
     \<and> nextHead \<lparr>row = 5, col = 6\<rparr> (direction w') \<noteq> food w'
     \<and> gameLoop demo_host w' = Some (Inr w'')
     \<and> snake w'' = [\<lparr>row = 5, col = 7\<rparr>, \<lparr>row = 5, col = 6\<rparr>] \<and> score w'' = 1"
proof -
  have s: "snake demo_start = \<lparr>row = 5, col = 5\<rparr> # []" by (simp add: demo_start_def)
  have nc: "\<not> isCollision (nextHead \<lparr>row = 5, col = 5\<rparr> (direction demo_start)) []"
    by (simp add: demo_start_def nextHead_def isCollision_def some_at_def GRID_SIZE_def)
  have eat: "nextHead \<lparr>row = 5, col = 5\<rparr> (direction demo_start) = food demo_start"
    by (simp add: demo_start_def nextHead_def)
  have free: "drawn (Math_random demo_host) (calls demo_start + 2 * 1)
       \<notin> set (nextHead \<lparr>row = 5, col = 5\<rparr> (direction demo_start) # snake demo_start)"
    by (simp add: demo_start_def nextHead_def demo_host_def drawn_def demo_random_def GRID_SIZE_def)
  from step_grows_or_conserves [OF s nc, of demo_host] eat free
  obtain w' where w': "gameLoop demo_host demo_start = Some (Inr w')"
    "snake w' = nextHead \<lparr>row = 5, col = 5\<rparr> (direction demo_start) # snake demo_start"
    "score w' = score demo_start + 1"
    by blast
  have d: "direction w' = Right" "food w' = \<lparr>row = 9, col = 9\<rparr>"
    using w'(1) gameLoop_eat [OF s nc eat, of demo_host]
    by (auto simp: demo_start_def demo_host_def generateFood_demo)
  have s': "snake w' = \<lparr>row = 5, col = 6\<rparr> # [\<lparr>row = 5, col = 5\<rparr>]"
    using w'(2) by (simp add: demo_start_def nextHead_def)
  have nc': "\<not> isCollision (nextHead \<lparr>row = 5, col = 6\<rparr> (direction w')) [\<lparr>row = 5, col = 5\<rparr>]"
    by (simp add: d nextHead_def isCollision_def some_at_def GRID_SIZE_def)
  have ne: "nextHead \<lparr>row = 5, col = 6\<rparr> (direction w') \<noteq> food w'"
    by (simp add: d nextHead_def)
  from step_grows_or_conserves [OF s' nc', of demo_host] ne
  obtain w'' where w'': "gameLoop demo_host w' = Some (Inr w'')"
    "snake w'' = nextHead \<lparr>row = 5, col = 6\<rparr> (direction w') # butlast (snake w')"
    "score w'' = score w'"
    by blast
  show ?thesis
    using s eat w' s' ne w'' d by (auto simp: demo_start_def nextHead_def)
qed



text \<open>
  C4. Every cell that \<^verbatim>\<open>generateFood\<close> returns is on no segment of the snake it was
  given. In every state of every game the food is on no segment of the snake. After a tick
  that eats, the snake is the new head followed by the whole old snake, and the new food is
  on none of its segments: neither on the new head nor on the tail that was kept.
\<close>

theorem food_never_on_snake:
  "(\<forall>fd k'. generateFood random k sn = Some (fd, k') \<longrightarrow> fd \<notin> set sn)
   \<and> (\<forall>w. game H fs events = Some (Inr w) \<longrightarrow> food w \<notin> set (snake w))
   \<and> (\<forall>s0 rest w'. snake w = s0 # rest \<and> \<not> isCollision (nextHead s0 (direction w)) rest
         \<and> nextHead s0 (direction w) = food w \<and> gameLoop H w = Some (Inr w') \<longrightarrow>
         snake w' = nextHead s0 (direction w) # snake w \<and> food w' \<notin> set (snake w')
         \<and> food w' \<noteq> nextHead s0 (direction w) \<and> food w' \<noteq> last (snake w))"
proof (intro conjI allI impI)
  fix fd k' assume "generateFood random k sn = Some (fd, k')"
  then show "fd \<notin> set sn" by (rule generateFood_free)
next
  fix w assume "game H fs events = Some (Inr w)"
  then have "game_inv w" by (rule game_reaches_inv)
  then show "food w \<notin> set (snake w)" by (simp add: game_inv_def)
next
  fix s0 rest w'
  assume a: "snake w = s0 # rest \<and> \<not> isCollision (nextHead s0 (direction w)) rest
         \<and> nextHead s0 (direction w) = food w \<and> gameLoop H w = Some (Inr w')"
  then have sn: "snake w = s0 # rest" and nc: "\<not> isCollision (nextHead s0 (direction w)) rest"
    and eq: "nextHead s0 (direction w) = food w" and g: "gameLoop H w = Some (Inr w')"
    by blast+
  from gameLoop_eat [OF sn nc eq, of H] g obtain food1 k1 where
    gf: "generateFood (Math_random H) (calls w) (food w # snake w) = Some (food1, k1)" and
    w': "snake w' = food w # snake w" "food w' = food1"
    by (auto split: option.splits)
  from generateFood_free [OF gf] have free: "food1 \<notin> set (food w # snake w)" .
  have "last (snake w) \<in> set (snake w)" using sn by simp
  with free w' eq
  show "snake w' = nextHead s0 (direction w) # snake w" "food w' \<notin> set (snake w')"
    "food w' \<noteq> nextHead s0 (direction w)" "food w' \<noteq> last (snake w)"
    by auto
qed

theorem food_never_on_snake_witness:
  "\<exists>w. game demo_host None [Tick] = Some (Inr w)
     \<and> snake w = [\<lparr>row = 5, col = 6\<rparr>, \<lparr>row = 5, col = 5\<rparr>] \<and> food w = \<lparr>row = 9, col = 9\<rparr>
     \<and> food w \<notin> set (snake w)
     \<and> generateFood demo_random 2 [\<lparr>row = 5, col = 6\<rparr>, \<lparr>row = 5, col = 5\<rparr>] = Some (\<lparr>row = 9, col = 9\<rparr>, 6)
     \<and> \<lparr>row = 9, col = 9\<rparr> \<notin> set [\<lparr>row = 5, col = 6\<rparr>, \<lparr>row = 5, col = 5\<rparr>]"
proof -
  from game_demo_Tick obtain w where w: "game demo_host None [Tick] = Some (Inr w)"
    "snake w = [\<lparr>row = 5, col = 6\<rparr>, \<lparr>row = 5, col = 5\<rparr>]" "food w = \<lparr>row = 9, col = 9\<rparr>"
    by blast
  from food_never_on_snake [of demo_random 2 "[\<lparr>row = 5, col = 6\<rparr>, \<lparr>row = 5, col = 5\<rparr>]"
      demo_host None "[Tick]" w] w generateFood_demo
  show ?thesis by auto
qed

text \<open>
  C5. In every state of every game the score is the length of the snake minus 1, and it is
  the number on the score line of the last frame drawn. It is 0 for the snake of length 1
  at the start; it never decreases as the game goes on; and one event either leaves score
  and length as they are or raises both by one.
\<close>

theorem score_is_length_minus_one:
  "(\<forall>w. game H fs events = Some (Inr w) \<longrightarrow>
       score w = int (length (snake w)) - 1
       \<and> (\<forall>g n. console w \<noteq> [] \<and> last (console w) = Frame g n \<longrightarrow> n = score w))
   \<and> (\<forall>w. game H fs [] = Some (Inr w) \<longrightarrow> score w = 0 \<and> length (snake w) = 1)
   \<and> (\<forall>w w'. game H fs events = Some (Inr w) \<and> game H fs (events @ later) = Some (Inr w') \<longrightarrow>
         score w \<le> score w')
   \<and> (\<forall>w w'. game H fs events = Some (Inr w) \<and> game H fs (events @ [e]) = Some (Inr w') \<longrightarrow>
         (score w' = score w \<and> length (snake w') = length (snake w)) \<or>
         (score w' = score w + 1 \<and> length (snake w') = length (snake w) + 1))"
proof -
  have inv: "\<forall>w. game H fs events = Some (Inr w) \<longrightarrow>
       score w = int (length (snake w)) - 1
       \<and> (\<forall>g n. console w \<noteq> [] \<and> last (console w) = Frame g n \<longrightarrow> n = score w)"
  proof (intro allI impI)
    fix w assume "game H fs events = Some (Inr w)"
    then have "game_inv w" by (rule game_reaches_inv)
    then show "score w = int (length (snake w)) - 1
       \<and> (\<forall>g n. console w \<noteq> [] \<and> last (console w) = Frame g n \<longrightarrow> n = score w)"
      by (auto simp: game_inv_def dest: shown_score_last)
  qed
  have start: "\<forall>w. game H fs [] = Some (Inr w) \<longrightarrow> score w = 0 \<and> length (snake w) = 1"
    by (auto simp: game_def playGame_def INITIAL_SNAKE_def split: option.splits)
  have mono: "\<forall>w w'. game H fs events = Some (Inr w) \<and> game H fs (events @ later) = Some (Inr w') \<longrightarrow>
         score w \<le> score w'"
  proof (intro allI impI)
    fix w w' assume "game H fs events = Some (Inr w) \<and> game H fs (events @ later) = Some (Inr w')"
    then have "run H later w = Some (Inr w')" using game_append_Inr [of H fs events w later] by simp
    then show "score w \<le> score w'" by (rule run_score_mono)
  qed
  have step: "\<forall>w w'. game H fs events = Some (Inr w) \<and> game H fs (events @ [e]) = Some (Inr w') \<longrightarrow>
         (score w' = score w \<and> length (snake w') = length (snake w)) \<or>
         (score w' = score w + 1 \<and> length (snake w') = length (snake w) + 1)"
  proof (intro allI impI)
    fix w w' assume a: "game H fs events = Some (Inr w) \<and> game H fs (events @ [e]) = Some (Inr w')"
    then have r: "run H [e] w = Some (Inr w')" using game_append_Inr [of H fs events w "[e]"] by simp
    from a have i: "game_inv w" by (blast intro: game_reaches_inv)
    from a have "game_inv w'" by (blast intro: game_reaches_inv)
    with i have len: "score w = int (length (snake w)) - 1" "score w' = int (length (snake w')) - 1"
      "snake w \<noteq> []" "snake w' \<noteq> []"
      by (simp_all add: game_inv_def)
    have "score w \<le> score w'" using r by (rule run_score_mono)
    moreover have "score w' \<le> score w + 1"
      using r by (rule run_single_score)
    ultimately have "score w' = score w \<or> score w' = score w + 1" by arith
    with len show "(score w' = score w \<and> length (snake w') = length (snake w)) \<or>
         (score w' = score w + 1 \<and> length (snake w') = length (snake w) + 1)"
      by auto
  qed
  from inv start mono step show ?thesis by blast
qed

theorem score_is_length_minus_one_witness:
  "\<exists>w w'. game demo_host None [] = Some (Inr w) \<and> score w = 0 \<and> length (snake w) = 1
     \<and> game demo_host None ([] @ [Tick]) = Some (Inr w') \<and> score w' = 1 \<and> length (snake w') = 2
     \<and> score w \<le> score w'"
proof -
  have 0: "game demo_host None [] = Some (Inr demo_start)"
    by (simp add: game_def playGame_demo)
  from game_demo_Tick obtain w' where w': "game demo_host None ([] @ [Tick]) = Some (Inr w')"
    "snake w' = [\<lparr>row = 5, col = 6\<rparr>, \<lparr>row = 5, col = 5\<rparr>]" "score w' = 1"
    by auto
  from score_is_length_minus_one [of demo_host None "[]" "[Tick]" Tick] 0 w'
  show ?thesis by (auto simp: demo_start_def)
qed

text \<open>
  C6. A keypress that the handler reads as the direction \<open>requested\<close> (and that is not the
  quit key) leaves the last accepted direction equal to what the specification's
  \<open>acceptDirection\<close> returns: \<open>requested\<close>, unless \<open>requested\<close> is the exact opposite of
  the last accepted direction, in which case the whole state, and with it the last accepted
  direction, stays as it was. The current direction follows in every state in which it
  equals the last accepted one. In particular, up after down leaves down, and left after up
  gives left.
\<close>

theorem keypress_accepts_unless_opposite:
  assumes "key_name \<noteq> Some ''q''" and "newDirection str key_name = Some requested"
  shows "\<exists>w'. keypress str key_name w = Inr w'
     \<and> lastDirection w' = acceptDirection_spec requested (lastDirection w)
     \<and> (direction w = lastDirection w \<longrightarrow> direction w' = acceptDirection_spec requested (lastDirection w))
     \<and> (isOppositeDirection requested (lastDirection w) \<longrightarrow> w' = w)
     \<and> (\<not> isOppositeDirection requested (lastDirection w) \<longrightarrow>
          w' = w\<lparr>direction := requested, lastDirection := requested\<rparr>)
     \<and> (requested = Up \<and> lastDirection w = Down \<longrightarrow> lastDirection w' = Down)
     \<and> (requested = Left \<and> lastDirection w = Up \<longrightarrow> lastDirection w' = Left)"
  using keypress_direction [OF assms, of w]
  by (auto simp: acceptDirection_spec_eq isOppositeDirection_def)

theorem keypress_accepts_unless_opposite_witness:
  "(\<exists>w'. keypress None (Some ''up'') tail_chase = Inr w' \<and> lastDirection tail_chase = Down
       \<and> direction w' = Down \<and> lastDirection w' = Down)
   \<and> (\<exists>w'. keypress (Some ''a'') (Some ''a'') corner = Inr w' \<and> lastDirection corner = Up
       \<and> direction w' = Left \<and> lastDirection w' = Left)"
proof -
  have 1: "Some ''up'' \<noteq> Some ''q''" "newDirection None (Some ''up'') = Some Up"
    by (simp_all add: newDirection_def)
  have 2: "Some ''a'' \<noteq> Some ''q''" "newDirection (Some ''a'') (Some ''a'') = Some Left"
    by (simp_all add: newDirection_def)
  have d: "lastDirection tail_chase = Down" "direction tail_chase = Down"
    "lastDirection corner = Up" "direction corner = Up"
    by (simp_all add: tail_chase_def corner_def)
  from keypress_accepts_unless_opposite [OF 1, of tail_chase]
       keypress_accepts_unless_opposite [OF 2, of corner] d
  show ?thesis
    by (auto simp: acceptDirection_spec_def isOppositeDirection_def)
qed

text \<open>
  C7. The table that \<^verbatim>\<open>saveHighScore\<close> writes for a loaded table \<open>t\<close> of entries
  with scores is \<open>pushSortSplice t e\<close> for the new entry \<open>e\<close>: it has
  \<open>min 5 (length t + 1)\<close> entries, in descending order of score; together with the
  entries dropped it holds exactly the entries of \<open>t\<close> and \<open>e\<close>, no dropped entry has a
  higher score than a kept one, and nothing is dropped while \<open>t\<close> has fewer than 5
  entries. Appending entries with the scores 3, 1, 4, 1, 5, 9, 2, 6 one at a time to the
  empty table gives a table of exactly 5 entries, in descending order, with the scores
  9, 6, 5, 4, 3.
\<close>

theorem append_sorts_and_keeps_top5:
  "length (pushSortSplice t e) = min 5 (length t + 1)
   \<and> sorted_wrt (\<lambda>a b. score_num a \<ge> score_num b) (pushSortSplice t e)
   \<and> (\<exists>dropped. mset (pushSortSplice t e) + mset dropped = mset (t @ [e])
        \<and> (\<forall>x \<in> set dropped. \<forall>y \<in> set (pushSortSplice t e). score_num x \<le> score_num y))
   \<and> (length t < 5 \<longrightarrow> mset (pushSortSplice t e) = mset t + {#e#})
   \<and> (\<forall>file. loadHighScores H file = Inr (JArr t) \<and> list_all has_score t \<longrightarrow>
         saveHighScore H sc name file =
           Inr (Some (JSON_stringify H (JArr (pushSortSplice t (entry name sc (toISOString H)))))))
   \<and> (\<forall>es. map score_num es = [3, 1, 4, 1, 5, 9, 2, 6] \<longrightarrow>
         map score_num (foldl pushSortSplice [] es) = [9, 6, 5, 4, 3]
         \<and> length (foldl pushSortSplice [] es) = 5
         \<and> sorted_wrt (\<lambda>a b. score_num a \<ge> score_num b) (foldl pushSortSplice [] es))"
proof -
  have scen: "map score_num (foldl pushSortSplice [] es) = [9, 6, 5, 4, 3]
         \<and> length (foldl pushSortSplice [] es) = 5
         \<and> sorted_wrt (\<lambda>a b. score_num a \<ge> score_num b) (foldl pushSortSplice [] es)"
    if "map score_num es = [3, 1, 4, 1, 5, 9, 2, 6]" for es
  proof -
    have m: "map score_num (foldl pushSortSplice [] es) = [9, 6, 5, 4, 3]"
      using foldl_pushSortSplice_scores [of "[]" es] that top5_of_example by simp
    then have "length (map score_num (foldl pushSortSplice [] es)) = 5" by simp
    then have l: "length (foldl pushSortSplice [] es) = 5" by simp
    have "sorted_wrt (\<lambda>a b. a \<ge> b) (map score_num (foldl pushSortSplice [] es))"
      unfolding m by simp
    then have "sorted_wrt (\<lambda>a b. score_num a \<ge> score_num b) (foldl pushSortSplice [] es)"
      by (simp add: sorted_wrt_map)
    with m l show ?thesis by blast
  qed
  from pushSortSplice_length [of t e] pushSortSplice_sorted [of t e] pushSortSplice_dropped [of t e]
    pushSortSplice_inserts [of t e] saveHighScore_table [of H _ t sc name] scen
  show ?thesis by blast
qed

theorem append_sorts_and_keeps_top5_witness:
  "loadHighScores demo_host (Some (show_json unsorted_six)) = Inr (JArr six_entries)
   \<and> list_all has_score six_entries
   \<and> map score_num six_entries = [1, 2, 3, 4, 5, 6]
   \<and> saveHighScore demo_host 7 ''Player'' (Some (show_json unsorted_six)) =
        Inr (Some (show_json (JArr (pushSortSplice six_entries
           (entry ''Player'' 7 ''2024-05-01T12:00:00.000Z'')))))
   \<and> map score_num (pushSortSplice six_entries (entry ''Player'' 7 ''2024-05-01T12:00:00.000Z''))
        = [7, 6, 5, 4, 3]
   \<and> mset (pushSortSplice [] (entry ''Player'' 7 ''2024-05-01T12:00:00.000Z''))
        = {#entry ''Player'' 7 ''2024-05-01T12:00:00.000Z''#}
   \<and> map score_num (map (\<lambda>n. entry ''Player'' n ''2024-05-01T12:00:00.000Z'') [3, 1, 4, 1, 5, 9, 2, 6])
        = [3, 1, 4, 1, 5, 9, 2, 6]
   \<and> map score_num (foldl pushSortSplice []
         (map (\<lambda>n. entry ''Player'' n ''2024-05-01T12:00:00.000Z'') [3, 1, 4, 1, 5, 9, 2, 6]))
        = [9, 6, 5, 4, 3]"
proof -
  have l: "loadHighScores demo_host (Some (show_json unsorted_six)) = Inr (JArr six_entries)"
    by (simp add: loadHighScores_def readFile_def demo_host_def demo_parse_six)
       (simp add: unsorted_six_def)
  have iso: "toISOString demo_host = ''2024-05-01T12:00:00.000Z''"
    "JSON_stringify demo_host = show_json"
    by (simp_all add: demo_host_def)
  have sc: "map score_num (map (\<lambda>n. entry ''Player'' n ''2024-05-01T12:00:00.000Z'') [3, 1, 4, 1, 5, 9, 2, 6])
        = [3, 1, 4, 1, 5, 9, 2, 6]"
    by (simp add: score_num_entry)
  have top: "map score_num (pushSortSplice six_entries (entry ''Player'' 7 ''2024-05-01T12:00:00.000Z''))
        = [7, 6, 5, 4, 3]"
    by (simp add: pushSortSplice_scores six_entries_scores score_num_entry)
  let ?e = "entry ''Player'' 7 ''2024-05-01T12:00:00.000Z''"
  let ?es = "map (\<lambda>n. entry ''Player'' n ''2024-05-01T12:00:00.000Z'') [3, 1, 4, 1, 5, 9, 2, 6]"
  note six = append_sorts_and_keeps_top5 [of six_entries ?e demo_host 7 "''Player''"]
  from six [THEN conjunct2, THEN conjunct2, THEN conjunct2, THEN conjunct2, THEN conjunct1]
    l six_entries_have_scores
  have save: "saveHighScore demo_host 7 ''Player'' (Some (show_json unsorted_six)) =
           Inr (Some (JSON_stringify demo_host (JArr (pushSortSplice six_entries
              (entry ''Player'' 7 (toISOString demo_host))))))"
    by blast
  have scen: "map score_num (foldl pushSortSplice [] ?es) = [9, 6, 5, 4, 3]"
    by (rule six [THEN conjunct2, THEN conjunct2, THEN conjunct2, THEN conjunct2, THEN conjunct2,
          rule_format, OF sc, THEN conjunct1])
  from append_sorts_and_keeps_top5 [of "[]" ?e demo_host 7 "''Player''"]
  have one: "mset (pushSortSplice [] ?e) = {#?e#}" by simp
  from save have save': "saveHighScore demo_host 7 ''Player'' (Some (show_json unsorted_six)) =
        Inr (Some (show_json (JArr (pushSortSplice six_entries ?e))))"
    by (simp only: iso)
  from l six_entries_have_scores six_entries_scores save' top one sc scen
  show ?thesis by blast
qed

text \<open>
  C8. \<^verbatim>\<open>loadHighScores\<close> returns a value for every state of the file and every host, so
  it never raises; when the file does not exist, and when the host's parser rejects its
  text, the value is the empty array.
\<close>

theorem loadHighScores_never_raises:
  "(\<exists>v. loadHighScores H file = Inr v)
   \<and> (file = None \<longrightarrow> loadHighScores H file = Inr (JArr []))
   \<and> (\<forall>data e. file = Some data \<and> JSON_parse H data = Inl e \<longrightarrow> loadHighScores H file = Inr (JArr []))"
  by (auto simp: loadHighScores_def readFile_def split: option.split sum.split)

theorem loadHighScores_never_raises_witness:
  "loadHighScores demo_host None = Inr (JArr [])
   \<and> JSON_parse demo_host ''{'' = Inl SyntaxError
   \<and> loadHighScores demo_host (Some ''{'') = Inr (JArr [])"
proof -
  have p: "JSON_parse demo_host ''{'' = Inl SyntaxError"
    by (simp add: demo_host_def demo_parse_brace)
  from loadHighScores_never_raises [of demo_host None]
       loadHighScores_never_raises [of demo_host "Some ''{''"] p
  show ?thesis by simp
qed




text \<open>
  C10. When the host's parser accepts the text of the file, \<^verbatim>\<open>loadHighScores\<close>
  returns the parsed value as it is, whatever its shape: nothing is checked, sorted or
  cut. The order and the bound of 5 are established by \<^verbatim>\<open>saveHighScore\<close> alone: for
  a loaded table of entries with scores it writes a table of at most 5 entries in
  descending order, and for a loaded value that is no array it raises.
\<close>

theorem loadHighScores_returns_parsed_value:
  "(\<forall>data v. file = Some data \<and> JSON_parse H data = Inr v \<longrightarrow> loadHighScores H file = Inr v)
   \<and> (\<forall>t. loadHighScores H file = Inr (JArr t) \<and> list_all has_score t \<longrightarrow>
         (\<exists>t'. saveHighScore H sc name file = Inr (Some (JSON_stringify H (JArr t')))
            \<and> length t' \<le> 5 \<and> sorted_wrt (\<lambda>a b. score_num a \<ge> score_num b) t'))
   \<and> (\<forall>v. loadHighScores H file = Inr v \<and> (\<forall>t. v \<noteq> JArr t) \<longrightarrow>
         saveHighScore H sc name file = Inl TypeError)"
proof -
  have 1: "\<forall>data v. file = Some data \<and> JSON_parse H data = Inr v \<longrightarrow> loadHighScores H file = Inr v"
    by (simp add: loadHighScores_def readFile_def)
  have 2: "\<forall>t. loadHighScores H file = Inr (JArr t) \<and> list_all has_score t \<longrightarrow>
         (\<exists>t'. saveHighScore H sc name file = Inr (Some (JSON_stringify H (JArr t')))
            \<and> length t' \<le> 5 \<and> sorted_wrt (\<lambda>a b. score_num a \<ge> score_num b) t')"
  proof (intro allI impI)
    fix t assume "loadHighScores H file = Inr (JArr t) \<and> list_all has_score t"
    then have "saveHighScore H sc name file =
       Inr (Some (JSON_stringify H (JArr (pushSortSplice t (entry name sc (toISOString H))))))"
      by (simp add: saveHighScore_table)
    moreover have "length (pushSortSplice t (entry name sc (toISOString H))) \<le> 5"
      by (simp add: pushSortSplice_length)
    ultimately show "\<exists>t'. saveHighScore H sc name file = Inr (Some (JSON_stringify H (JArr t')))
            \<and> length t' \<le> 5 \<and> sorted_wrt (\<lambda>a b. score_num a \<ge> score_num b) t'"
      using pushSortSplice_sorted by blast
  qed
  have 3: "\<forall>v. loadHighScores H file = Inr v \<and> (\<forall>t. v \<noteq> JArr t) \<longrightarrow>
         saveHighScore H sc name file = Inl TypeError"
    using saveHighScore_no_array by blast
  from 1 2 3 show ?thesis by blast
qed

theorem loadHighScores_returns_parsed_value_witness:
  "JSON_parse demo_host ''42'' = Inr (JNum 42)
   \<and> loadHighScores demo_host (Some ''42'') = Inr (JNum 42)
   \<and> saveHighScore demo_host 7 ''Player'' (Some ''42'') = Inl TypeError
   \<and> JSON_parse demo_host (show_json unsorted_six) = Inr (JArr six_entries)
   \<and> loadHighScores demo_host (Some (show_json unsorted_six)) = Inr (JArr six_entries)
   \<and> length six_entries = 6
   \<and> \<not> sorted_wrt (\<lambda>a b. score_num a \<ge> score_num b) six_entries
   \<and> (\<exists>t'. saveHighScore demo_host 7 ''Player'' (Some (show_json unsorted_six)) =
           Inr (Some (JSON_stringify demo_host (JArr t')))
         \<and> length t' \<le> 5 \<and> sorted_wrt (\<lambda>a b. score_num a \<ge> score_num b) t')"
proof -
  have p42: "JSON_parse demo_host ''42'' = Inr (JNum 42)"
    by (simp add: demo_host_def demo_parse_42)
  have p6: "JSON_parse demo_host (show_json unsorted_six) = Inr (JArr six_entries)"
    by (simp add: demo_host_def demo_parse_six) (simp add: unsorted_six_def)
  have len: "length six_entries = 6" by (simp add: six_entries_def)
  have "\<not> sorted_wrt (\<lambda>a b. a \<ge> b) (map score_num six_entries)"
    unfolding six_entries_scores by simp
  then have uns: "\<not> sorted_wrt (\<lambda>a b. score_num a \<ge> score_num b) six_entries"
    by (simp add: sorted_wrt_map)
  from loadHighScores_returns_parsed_value [of "Some ''42''" demo_host 7 "''Player''"] p42
  have a: "loadHighScores demo_host (Some ''42'') = Inr (JNum 42)"
    "saveHighScore demo_host 7 ''Player'' (Some ''42'') = Inl TypeError"
    by auto
  from loadHighScores_returns_parsed_value [of "Some (show_json unsorted_six)" demo_host 7 "''Player''"]
    p6 six_entries_have_scores
  have b: "loadHighScores demo_host (Some (show_json unsorted_six)) = Inr (JArr six_entries)"
    "\<exists>t'. saveHighScore demo_host 7 ''Player'' (Some (show_json unsorted_six)) =
           Inr (Some (JSON_stringify demo_host (JArr t')))
         \<and> length t' \<le> 5 \<and> sorted_wrt (\<lambda>a b. score_num a \<ge> score_num b) t'"
    by auto
  from p42 p6 len uns a b show ?thesis by blast
qed

end
